theory Spec2Isabelle
  imports Complex_Main
begin

section \<open>Common ground: exceptions, the pseudo-random generator, Python indexing\<close>

text \<open>
  The Python exceptions the modelled code raises, explicitly or through a built-in
  operation. A function that can raise returns \<open>error + 'a\<close>, with \<open>Inl\<close> the
  exception.
\<close>

datatype error =
    ValueError
  | NotImplementedError
  | IndexError
  | ZeroDivisionError
  | TypeError
  | KeyError
  | AttributeError
  | GenericException

text \<open>
  The process-wide pseudo-random generators are modelled as one stream of raw
  variates, threaded through every function that draws. A genuine generator delivers
  variates in \<open>[0, 1)\<close> to the uniform primitives; theorems that depend on this say
  so in a hypothesis. Floating-point numbers are modelled by the reals (exact arithmetic).
\<close>

type_synonym rng = "nat \<Rightarrow> real"

definition next_draw :: "rng \<Rightarrow> real \<times> rng" where
  "next_draw g = (g 0, \<lambda>n. g (Suc n))"

definition unit_draw :: "real \<Rightarrow> bool" where
  "unit_draw u \<longleftrightarrow> 0 \<le> u \<and> u < 1"

text \<open>\<open>options[i]\<close> for a Python list: a negative index counts from the end, an index out
  of range raises.\<close>

definition py_index :: "'a list \<Rightarrow> int \<Rightarrow> error + 'a" where
  "py_index xs i =
     (if 0 \<le> i \<and> i < int (length xs) then Inr (xs ! nat i)
      else if i < 0 \<and> - int (length xs) \<le> i then Inr (xs ! nat (int (length xs) + i))
      else Inl IndexError)"

section \<open>cfg.py: the \<open>choice\<close> helper\<close>

text \<open>
  The loop \<open>for i, p in enumerate(probs)\<close> of \<open>choice\<close>: \<open>cum\<close> is the running sum,
  the result is the first index whose cumulative sum exceeds the draw \<open>x\<close>, and \<open>-1\<close>
  (the initial value of the variable \<open>choice\<close>) when the loop ends without a break.
\<close>

fun choice_index :: "real \<Rightarrow> real \<Rightarrow> nat \<Rightarrow> real list \<Rightarrow> int" where
  "choice_index x cum i [] = - 1"
| "choice_index x cum i (p # ps) =
     (let cum' = cum + p in
      if x < cum' then int i else choice_index x cum' (Suc i) ps)"

text \<open>
  \<open>choice(options, probs=None)\<close>. The draw is made first; with \<open>probs\<close> absent the
  uniform list \<open>[1 / num] * num\<close> is built, which divides by zero for an empty
  \<open>options\<close>.
\<close>

definition choice :: "'a list \<Rightarrow> real list option \<Rightarrow> rng \<Rightarrow> (error + 'a) \<times> rng" where
  "choice options probs g =
     (let (x, g') = next_draw g in
      case probs of
        None \<Rightarrow>
          (let num = length options in
           if num = 0 then (Inl ZeroDivisionError, g')
           else (py_index options (choice_index x 0 0 (replicate num (1 / real num))), g'))
      | Some ps \<Rightarrow> (py_index options (choice_index x 0 0 ps), g'))"

subsection \<open>Facts about \<open>choice\<close>\<close>

lemma choice_index_range:
  "choice_index x cum i ps = - 1 \<or>
   (int i \<le> choice_index x cum i ps \<and> choice_index x cum i ps < int i + int (length ps))"
proof (induction ps arbitrary: cum i)
  case Nil
  then show ?case by simp
next
  case (Cons p ps)
  from Cons.IH [of "cum + p" "Suc i"] show ?case
    by (auto simp: Let_def)
qed

lemma choice_index_no_hit:
  "(\<forall>k \<le> length ps. \<not> x < cum + sum_list (take k ps)) \<Longrightarrow> choice_index x cum i ps = - 1"
proof (induction ps arbitrary: cum i)
  case Nil
  then show ?case by simp
next
  case (Cons p ps)
  have first: "\<not> x < cum + p"
    using Cons.prems [rule_format, of 1] by simp
  have rest: "\<forall>k \<le> length ps. \<not> x < (cum + p) + sum_list (take k ps)"
  proof (intro allI impI)
    fix k assume "k \<le> length ps"
    then have "Suc k \<le> length (p # ps)" by simp
    from Cons.prems [rule_format, OF this] show "\<not> x < (cum + p) + sum_list (take k ps)"
      by (simp add: add.assoc)
  qed
  from first Cons.IH [OF rest] show ?case
    by (simp add: Let_def)
qed

lemma choice_index_hit:
  "k < length ps \<Longrightarrow> x < cum + sum_list (take (Suc k) ps) \<Longrightarrow>
   \<forall>j \<le> k. \<not> x < cum + sum_list (take j ps) \<Longrightarrow>
   choice_index x cum i ps = int (i + k)"
proof (induction ps arbitrary: cum i k)
  case Nil
  then show ?case by simp
next
  case (Cons p ps)
  show ?case
  proof (cases k)
    case 0
    with Cons.prems show ?thesis by (simp add: Let_def)
  next
    case (Suc k')
    have first: "\<not> x < cum + p"
      using Cons.prems(3) [rule_format, of 1] Suc by simp
    have lt: "k' < length ps" using Cons.prems(1) Suc by simp
    have hit: "x < (cum + p) + sum_list (take (Suc k') ps)"
      using Cons.prems(2) Suc by (simp add: add.assoc)
    have miss: "\<forall>j \<le> k'. \<not> x < (cum + p) + sum_list (take j ps)"
    proof (intro allI impI)
      fix j assume "j \<le> k'"
      then have "Suc j \<le> k" using Suc by simp
      from Cons.prems(3) [rule_format, OF this] show "\<not> x < (cum + p) + sum_list (take j ps)"
        by (simp add: add.assoc)
    qed
    from first Cons.IH [OF lt hit miss] Suc show ?thesis
      by (simp add: Let_def)
  qed
qed

lemma py_index_minus_one: "xs \<noteq> [] \<Longrightarrow> py_index xs (- 1) = Inr (last xs)"
  by (cases xs rule: rev_cases) (auto simp: py_index_def nth_append)

lemma py_index_in_set:
  assumes ne: "xs \<noteq> []" and rg: "i = - 1 \<or> (0 \<le> i \<and> i < int (length xs))"
  shows "\<exists>v. py_index xs i = Inr v \<and> v \<in> set xs"
proof (cases "0 \<le> i")
  case True
  with rg have "nat i < length xs" by auto
  then have "xs ! nat i \<in> set xs" by (rule nth_mem)
  with True rg show ?thesis by (auto simp: py_index_def)
next
  case False
  with rg have i: "i = - 1" by auto
  from ne have "py_index xs (- 1) = Inr (last xs)" by (rule py_index_minus_one)
  with i ne show ?thesis by (auto intro: last_in_set)
qed

text \<open>
  Claim C10. For a non-empty \<open>options\<close> list and a probability list of the same length,
  whatever its entries sum to and whatever the draw, \<open>choice\<close> returns an element of
  \<open>options\<close> and does not raise; and when the draw is not below any cumulative sum,
  the selection index stays \<open>-1\<close> and the last option is returned. (Only the order of
  the additions and comparisons matters, so rounding cannot change the conclusion.)
\<close>

theorem choice_total_last_fallback:
  assumes "options \<noteq> []" and "length probs = length options"
  shows "(\<exists>v. fst (choice options (Some probs) g) = Inr v \<and> v \<in> set options) \<and>
         ((\<forall>k \<le> length probs. \<not> g 0 < sum_list (take k probs)) \<longrightarrow>
            choice_index (g 0) 0 0 probs = - 1 \<and>
            fst (choice options (Some probs) g) = Inr (last options))"
proof (intro conjI impI)
  have "choice_index (g 0) 0 0 probs = - 1 \<or>
        (0 \<le> choice_index (g 0) 0 0 probs \<and> choice_index (g 0) 0 0 probs < int (length options))"
    using choice_index_range [of "g 0" 0 0 probs] assms(2) by auto
  from py_index_in_set [OF assms(1) this]
  show "\<exists>v. fst (choice options (Some probs) g) = Inr v \<and> v \<in> set options"
    by (simp add: choice_def next_draw_def)
next
  assume none: "\<forall>k \<le> length probs. \<not> g 0 < sum_list (take k probs)"
  then have "\<forall>k \<le> length probs. \<not> g 0 < 0 + sum_list (take k probs)" by simp
  from choice_index_no_hit [OF this]
  show idx: "choice_index (g 0) 0 0 probs = - 1" .
  show "fst (choice options (Some probs) g) = Inr (last options)"
    using idx py_index_minus_one [OF assms(1)]
    by (simp add: choice_def next_draw_def)
qed

theorem choice_total_last_fallback_witness:
  "[''a'', ''b''] \<noteq> [] \<and> length [1/4, 1/4 :: real] = length [''a'', ''b''] \<and>
   fst (choice [''a'', ''b''] (Some [1/4, 1/4]) (\<lambda>_. 3/4)) = Inr ''b'' \<and>
   choice_index ((\<lambda>_. 3/4) 0) 0 0 [1/4, 1/4] = - 1"
  using choice_total_last_fallback [of "[''a'', ''b'']" "[1/4, 1/4]" "\<lambda>_. 3/4"]
  by (simp add: less_Suc_eq_le le_Suc_eq all_conj_distrib)

section \<open>cfg.py: trees as token strings\<close>

text \<open>\<open>tree.split(" ")\<close> and \<open>" ".join(tokens)\<close>.\<close>

fun split_sp :: "string \<Rightarrow> string list" where
  "split_sp [] = [[]]"
| "split_sp (c # cs) =
     (let r = split_sp cs in
      if c = CHR '' '' then [] # r else (c # hd r) # tl r)"

fun join_sp :: "string list \<Rightarrow> string" where
  "join_sp [] = []"
| "join_sp [t] = t"
| "join_sp (t # u # ts) = t @ '' '' @ join_sp (u # ts)"

text \<open>
  \<open>remove_subtree(tree, index)\<close>. \<open>bump\<close> is the body of the scanning loop, one
  character's effect on \<open>counter\<close>; \<open>scan_close\<close> is the loop, returning
  \<open>current_index\<close> at the break or at the end of \<open>right\<close>.
\<close>

definition bump :: "int \<Rightarrow> char \<Rightarrow> int" where
  "bump counter ch =
     (if ch = CHR ''('' then counter + 1
      else if ch = CHR '')'' then counter - 1
      else counter)"

fun scan_close :: "int \<Rightarrow> nat \<Rightarrow> string \<Rightarrow> nat" where
  "scan_close counter current_index [] = current_index"
| "scan_close counter current_index (ch # rest) =
     (let counter' = bump counter ch in
      if counter' = 0 then current_index
      else scan_close counter' (current_index + 1) rest)"

definition remove_subtree :: "string \<Rightarrow> nat \<Rightarrow> error + (string \<times> string \<times> string)" where
  "remove_subtree tree index =
     (let split_tree = split_sp tree;
          pre_subtree = join_sp (take index split_tree) @ '' '';
          right = join_sp (drop (index + 1) split_tree);
          current_index = scan_close 1 0 right;
          post_subtree = drop (current_index + 1) right
      in if index < length split_tree
         then Inr (pre_subtree,
                   split_tree ! index @ '' '' @ take (current_index + 1) right,
                   post_subtree)
         else Inl IndexError)"

text \<open>The value of the bracket counter after a text has been read (specification only).\<close>

fun counter_after :: "int \<Rightarrow> string \<Rightarrow> int" where
  "counter_after counter [] = counter"
| "counter_after counter (ch # rest) = counter_after (bump counter ch) rest"

lemma split_sp_nonempty: "split_sp s \<noteq> []"
  by (induction s) (auto simp: Let_def)

lemma join_split_sp: "join_sp (split_sp s) = s"
proof (induction s)
  case Nil
  then show ?case by simp
next
  case (Cons c cs)
  obtain t ts where r: "split_sp cs = t # ts"
    using split_sp_nonempty [of cs] by (cases "split_sp cs") auto
  show ?case
  proof (cases "c = CHR '' ''")
    case True
    with Cons r show ?thesis by (simp add: Let_def)
  next
    case False
    with Cons r show ?thesis by (cases ts) (auto simp: Let_def)
  qed
qed

lemma join_sp_Cons: "ts \<noteq> [] \<Longrightarrow> join_sp (t # ts) = t @ '' '' @ join_sp ts"
  by (cases ts) simp_all

lemma join_sp_append:
  "xs \<noteq> [] \<Longrightarrow> ys \<noteq> [] \<Longrightarrow> join_sp (xs @ ys) = join_sp xs @ '' '' @ join_sp ys"
proof (induction xs rule: join_sp.induct)
  case 1
  then show ?case by simp
next
  case (2 t)
  then show ?case by (simp add: join_sp_Cons)
next
  case (3 t u ts)
  then show ?case by simp
qed

lemma join_sp_cut:
  assumes "0 < i" and "Suc i < length ts"
  shows "join_sp (take i ts) @ '' '' @ ts ! i @ '' '' @ join_sp (drop (Suc i) ts) = join_sp ts"
proof -
  have i: "i < length ts" using assms(2) by simp
  have ts: "ts = take i ts @ (ts ! i # drop (Suc i) ts)"
    using id_take_nth_drop [OF i] .
  have a: "take i ts \<noteq> []" using assms(1) i by (cases ts) auto
  have b: "drop (Suc i) ts \<noteq> []" using assms(2) by simp
  have "join_sp ts = join_sp (take i ts @ (ts ! i # drop (Suc i) ts))"
    using ts by simp
  also have "\<dots> = join_sp (take i ts) @ '' '' @ join_sp (ts ! i # drop (Suc i) ts)"
    using a by (intro join_sp_append) simp_all
  also have "\<dots> = join_sp (take i ts) @ '' '' @ ts ! i @ '' '' @ join_sp (drop (Suc i) ts)"
    using b by (simp add: join_sp_Cons)
  finally show ?thesis by simp
qed

lemma scan_close_bounds:
  "i \<le> scan_close c i s \<and> scan_close c i s \<le> i + length s"
proof (induction s arbitrary: c i)
  case Nil
  then show ?case by simp
next
  case (Cons ch s)
  from Cons [of "Suc i" "bump c ch"] show ?case by (auto simp: Let_def)
qed

lemma scan_close_first:
  "scan_close c i s < i + length s \<Longrightarrow>
   counter_after c (take (Suc (scan_close c i s - i)) s) = 0 \<and>
   (\<forall>j < scan_close c i s - i. counter_after c (take (Suc j) s) \<noteq> 0)"
proof (induction s arbitrary: c i)
  case Nil
  then show ?case by simp
next
  case (Cons ch s)
  show ?case
  proof (cases "bump c ch = 0")
    case True
    then show ?thesis by (simp add: Let_def)
  next
    case False
    define m where "m = scan_close (bump c ch) (Suc i) s"
    have eq: "scan_close c i (ch # s) = m"
      using False by (simp add: Let_def m_def)
    from Cons.prems [unfolded eq] have lt: "m < Suc i + length s"
      by simp
    have ge: "Suc i \<le> m"
      using scan_close_bounds [of "Suc i" "bump c ch" s] by (simp add: m_def)
    from Cons.IH [of "bump c ch" "Suc i"] lt have
      z: "counter_after (bump c ch) (take (Suc (m - Suc i)) s) = 0"
      and nz: "\<forall>j < m - Suc i. counter_after (bump c ch) (take (Suc j) s) \<noteq> 0"
      by (auto simp: m_def)
    have d: "m - i = Suc (m - Suc i)"
      using ge by simp
    show ?thesis
    proof (intro conjI allI impI)
      show "counter_after c (take (Suc (scan_close c i (ch # s) - i)) (ch # s)) = 0"
        using z by (simp only: eq d take_Suc_Cons counter_after.simps)
    next
      fix j assume j: "j < scan_close c i (ch # s) - i"
      show "counter_after c (take (Suc j) (ch # s)) \<noteq> 0"
      proof (cases j)
        case 0
        with False show ?thesis by simp
      next
        case (Suc j')
        with j [unfolded eq d] have "j' < m - Suc i"
          by simp
        with nz Suc show ?thesis by simp
      qed
    qed
  qed
qed

lemma scan_close_none:
  "scan_close c i s = i + length s \<Longrightarrow> \<forall>j < length s. counter_after c (take (Suc j) s) \<noteq> 0"
proof (induction s arbitrary: c i)
  case Nil
  then show ?case by simp
next
  case (Cons ch s)
  have nz: "bump c ch \<noteq> 0"
    using Cons.prems by (auto simp: Let_def)
  with Cons.prems have "scan_close (bump c ch) (Suc i) s = Suc i + length s"
    by (simp add: Let_def)
  from Cons.IH [OF this] have rest: "\<forall>j < length s. counter_after (bump c ch) (take (Suc j) s) \<noteq> 0" .
  show ?case
  proof (intro allI impI)
    fix j assume "j < length (ch # s)"
    then show "counter_after c (take (Suc j) (ch # s)) \<noteq> 0"
      using nz rest by (cases j) auto
  qed
qed

text \<open>
  Claim C6, as the code has it. \<open>pre_subtree\<close> always ends in an added blank, so the
  three parts reassemble the tree exactly when the index is not the first token and a
  token follows it (every nonterminal occurrence \<open>(X\<close> below the root of a tree whose
  productions are non-empty). The removed part is the token at the index, a blank, and
  the text up to and including the first character at which the bracket counter,
  started at 1, reaches 0.
\<close>

theorem remove_subtree_reassembles:
  assumes "0 < index" and "Suc index < length (split_sp tree)"
  shows "\<exists>pre removed post sub.
           remove_subtree tree index = Inr (pre, removed, post) \<and>
           pre @ removed @ post = tree \<and>
           removed = split_sp tree ! index @ '' '' @ sub \<and>
           sub @ post = join_sp (drop (Suc index) (split_sp tree)) \<and>
           ((\<exists>n < length (sub @ post). counter_after 1 (take (Suc n) (sub @ post)) = 0) \<longrightarrow>
              counter_after 1 sub = 0 \<and>
              (\<forall>j. Suc j < length sub \<longrightarrow> counter_after 1 (take (Suc j) sub) \<noteq> 0))"
proof -
  define toks where "toks = split_sp tree"
  define right where "right = join_sp (drop (Suc index) toks)"
  define ci where "ci = scan_close 1 0 right"
  define sub where "sub = take (Suc ci) right"
  define post where "post = drop (Suc ci) right"
  define pre where "pre = join_sp (take index toks) @ '' ''"
  define removed where "removed = toks ! index @ '' '' @ sub"
  have idx: "index < length toks" using assms(2) by (simp add: toks_def)
  have res: "remove_subtree tree index = Inr (pre, removed, post)"
    using idx
    by (simp add: remove_subtree_def Let_def toks_def right_def ci_def sub_def post_def
        pre_def removed_def)
  have sp: "sub @ post = right" by (simp add: sub_def post_def)
  have "pre @ removed @ post =
        join_sp (take index toks) @ '' '' @ toks ! index @ '' '' @ (sub @ post)"
    by (simp add: pre_def removed_def)
  also have "\<dots> = join_sp toks"
    unfolding sp right_def using assms by (intro join_sp_cut) (simp_all add: toks_def)
  also have "\<dots> = tree" by (simp add: toks_def join_split_sp)
  finally have whole: "pre @ removed @ post = tree" .
  have brackets: "counter_after 1 sub = 0 \<and>
                  (\<forall>j. Suc j < length sub \<longrightarrow> counter_after 1 (take (Suc j) sub) \<noteq> 0)"
    if closing: "\<exists>n < length (sub @ post). counter_after 1 (take (Suc n) (sub @ post)) = 0"
  proof -
    have le: "ci \<le> length right"
      using scan_close_bounds [of 0 1 right] by (simp add: ci_def)
    have "ci \<noteq> length right"
    proof
      assume "ci = length right"
      then have "scan_close 1 0 right = 0 + length right" by (simp add: ci_def)
      from scan_close_none [OF this] closing show False by (auto simp: sp)
    qed
    with le have lt: "scan_close 1 0 right < 0 + length right" by (simp add: ci_def)
    from scan_close_first [OF lt] have
      z: "counter_after 1 (take (Suc ci) right) = 0"
      and nz: "\<forall>j < ci. counter_after 1 (take (Suc j) right) \<noteq> 0"
      by (simp_all add: ci_def)
    have len: "length sub = Suc ci" using lt by (simp add: sub_def ci_def)
    show ?thesis
    proof (intro conjI allI impI)
      show "counter_after 1 sub = 0" using z by (simp add: sub_def)
    next
      fix j assume "Suc j < length sub"
      then have j: "j < ci" by (simp add: len)
      then have "take (Suc j) sub = take (Suc j) right"
        by (simp add: sub_def min_def)
      with nz j show "counter_after 1 (take (Suc j) sub) \<noteq> 0" by simp
    qed
  qed
  show ?thesis
    using res whole sp brackets
    by (intro exI [of _ pre] exI [of _ removed] exI [of _ post] exI [of _ sub])
       (simp add: removed_def toks_def right_def)
qed

lemma split_example:
  "split_sp ''(S (S (T 2)) (ADD +) (T 1))'' =
     [''(S'', ''(S'', ''(T'', ''2))'', ''(ADD'', ''+)'', ''(T'', ''1))'']"
  by (simp add: Let_def)

theorem remove_subtree_reassembles_witness:
  "0 < (4::nat) \<and> Suc 4 < length (split_sp ''(S (S (T 2)) (ADD +) (T 1))'') \<and>
   remove_subtree ''(S (S (T 2)) (ADD +) (T 1))'' 4 =
     Inr (''(S (S (T 2)) '', ''(ADD +)'', '' (T 1))'') \<and>
   ''(S (S (T 2)) '' @ ''(ADD +)'' @ '' (T 1))'' = ''(S (S (T 2)) (ADD +) (T 1))''"
  using remove_subtree_reassembles [of 4 "''(S (S (T 2)) (ADD +) (T 1))''"]
  by (simp add: split_example remove_subtree_def bump_def Let_def)

text \<open>At index 0 the prefix is a single blank, and the parts reassemble to the tree
  with a blank in front.\<close>

theorem remove_subtree_root_counterexample:
  "remove_subtree ''(S (T 1))'' 0 = Inr ('' '', ''(S (T 1))'', []) \<and>
   '' '' @ ''(S (T 1))'' @ [] \<noteq> ''(S (T 1))''"
  by (simp add: remove_subtree_def bump_def Let_def)

section \<open>cfg.py: the grammar\<close>

datatype symbol = Terminal string | Nonterminal string

type_synonym production = "string \<times> symbol list"

abbreviation lhs :: "production \<Rightarrow> string" where
  "lhs \<equiv> fst"

abbreviation rhs :: "production \<Rightarrow> symbol list" where
  "rhs \<equiv> snd"

text \<open>
  The grammar object: the productions in the order of the rule-set text (NLTK keeps it),
  and the sampling mode set by \<open>set_convergent\<close>, \<open>set_depth_constraints\<close> and
  \<open>set_unconstrained\<close>. A right-hand side holds terminals (Python strings) and
  nonterminals.
\<close>

record grammar =
  start :: string
  all_productions :: "production list"
  convergent :: bool
  depth_constrained :: bool
  depth_constraints :: "(string \<rightharpoonup> int) option"

text \<open>\<open>self.productions(lhs=symbol)\<close>: the productions of one nonterminal, in order.\<close>

definition productions :: "grammar \<Rightarrow> string \<Rightarrow> production list" where
  "productions G symbol = filter (\<lambda>prod. lhs prod = symbol) (all_productions G)"

definition non_unique_nonterminals :: "grammar \<Rightarrow> string list" where
  "non_unique_nonterminals G = map lhs (all_productions G)"

definition swappable_nonterminals :: "grammar \<Rightarrow> string list" where
  "swappable_nonterminals G =
     remdups (filter (\<lambda>i. 1 < count_list (non_unique_nonterminals G) i)
                     (non_unique_nonterminals G))"

text \<open>
  \<open>np.random.randint(low, high)\<close>: an integer of \<open>[low, high)\<close>, obtained from the
  next uniform variate; an empty range raises before anything is drawn.
\<close>

definition np_randint :: "int \<Rightarrow> int \<Rightarrow> rng \<Rightarrow> (error + int) \<times> rng" where
  "np_randint low high g =
     (if high \<le> low then (Inl ValueError, g)
      else (let (u, g') = next_draw g
            in (Inr (low + \<lfloor>u * real_of_int (high - low)\<rfloor>), g')))"

text \<open>
  \<open>rand_subtree(tree)\<close>. \<open>split_tree[i][1:]\<close> drops the first character of the token,
  whatever it is.
\<close>

definition swappable_indices :: "grammar \<Rightarrow> string list \<Rightarrow> nat list" where
  "swappable_indices G split_tree =
     filter (\<lambda>i. tl (split_tree ! i) \<in> set (swappable_nonterminals G))
            [0 ..< length split_tree]"

definition rand_subtree :: "grammar \<Rightarrow> string \<Rightarrow> rng \<Rightarrow> (error + string \<times> nat) \<times> rng" where
  "rand_subtree G tree g =
     (let split_tree = split_sp tree;
          swappable = swappable_indices G split_tree
      in case np_randint 1 (int (length swappable)) g of
           (Inl e, g') \<Rightarrow> (Inl e, g')
         | (Inr r, g') \<Rightarrow>
             (case py_index swappable r of
                Inl e \<Rightarrow> (Inl e, g')
              | Inr chosen_non_terminal_index \<Rightarrow>
                  (Inr (tl (split_tree ! chosen_non_terminal_index),
                        chosen_non_terminal_index), g')))"

definition arith_grammar :: grammar where
  "arith_grammar =
     \<lparr>start = ''S'',
      all_productions =
        [(''S'', [Nonterminal ''S'', Terminal ''+'', Nonterminal ''T'']),
         (''S'', [Nonterminal ''T'']),
         (''T'', [Terminal ''1'']),
         (''T'', [Terminal ''2''])],
      convergent = False, depth_constrained = False, depth_constraints = None\<rparr>"

lemma floor_scale_range:
  assumes "0 \<le> u" and "u < 1" and "0 < n"
  shows "0 \<le> \<lfloor>u * real_of_int n\<rfloor> \<and> \<lfloor>u * real_of_int n\<rfloor> < n"
proof
  have "0 \<le> u * real_of_int n" using assms by simp
  then show "0 \<le> \<lfloor>u * real_of_int n\<rfloor>" by simp
  have "u * real_of_int n < 1 * real_of_int n"
    using assms by (intro mult_strict_right_mono) simp_all
  then show "\<lfloor>u * real_of_int n\<rfloor> < n" by (simp add: floor_less_iff)
qed

lemma floor_scale_iff:
  assumes "0 < n"
  shows "\<lfloor>u * real_of_int n\<rfloor> = j \<longleftrightarrow>
         real_of_int j / real_of_int n \<le> u \<and> u < real_of_int (j + 1) / real_of_int n"
proof -
  have n: "0 < real_of_int n" using assms by simp
  have "\<lfloor>u * real_of_int n\<rfloor> = j \<longleftrightarrow>
        real_of_int j \<le> u * real_of_int n \<and> u * real_of_int n < real_of_int j + 1"
    by (rule floor_eq_iff)
  also have "\<dots> \<longleftrightarrow> real_of_int j / real_of_int n \<le> u \<and> u < real_of_int (j + 1) / real_of_int n"
    using n by (simp add: pos_divide_le_eq pos_less_divide_eq)
  finally show ?thesis .
qed

lemma swappable_indices_set:
  "set (swappable_indices G toks) =
     {i. i < length toks \<and> tl (toks ! i) \<in> set (swappable_nonterminals G)}"
  by (auto simp: swappable_indices_def)

lemma swappable_indices_sorted: "sorted (swappable_indices G toks)"
  using sorted_filter [of "\<lambda>i. i" "[0 ..< length toks]"]
  by (simp add: swappable_indices_def)

lemma swappable_indices_distinct: "distinct (swappable_indices G toks)"
  by (simp add: swappable_indices_def)

lemma rand_subtree_draw:
  assumes u: "unit_draw (g 0)" and k: "2 \<le> length (swappable_indices G (split_sp tree))"
  defines "si \<equiv> swappable_indices G (split_sp tree)"
  defines "r0 \<equiv> nat (1 + \<lfloor>g 0 * real_of_int (int (length si) - 1)\<rfloor>)"
  shows "1 \<le> r0 \<and> r0 < length si \<and>
         fst (rand_subtree G tree g) = Inr (tl (split_sp tree ! (si ! r0)), si ! r0)"
proof -
  define f where "f = \<lfloor>g 0 * real_of_int (int (length si) - 1)\<rfloor>"
  have n: "0 < int (length si) - 1" using k by (simp add: si_def)
  from u have "0 \<le> g 0" "g 0 < 1" by (simp_all add: unit_draw_def)
  from floor_scale_range [OF this n]
  have fl: "0 \<le> f" "f < int (length si) - 1"
    unfolding f_def by blast+
  have r0f: "r0 = nat (1 + f)" by (simp only: r0_def f_def)
  from fl have r0: "1 \<le> r0" "r0 < length si" unfolding r0f by linarith+
  have int_r0: "int r0 = 1 + f"
    using fl unfolding r0f by linarith
  have draw: "np_randint 1 (int (length si)) g = (Inr (int r0), \<lambda>n. g (Suc n))"
    using n unfolding int_r0 f_def by (simp add: np_randint_def next_draw_def)
  have pick: "py_index si (int r0) = Inr (si ! r0)"
    using r0 by (simp add: py_index_def)
  have "fst (rand_subtree G tree g) = Inr (tl (split_sp tree ! (si ! r0)), si ! r0)"
    unfolding rand_subtree_def Let_def si_def [symmetric]
    by (simp add: draw pick)
  with r0 show ?thesis by simp
qed

text \<open>
  Claim C3, as the code has it. The draw is \<open>np.random.randint(1, len(swappable_indices))\<close>,
  whose result lies in \<open>[1, len)\<close>: for a tree with at least two swappable occurrences the
  returned index is one of the swappable positions other than the first, each of them
  selected by an interval of draws of the same length \<open>1 / (len - 1)\<close>, and the returned
  symbol is the head at that index.
\<close>

theorem rand_subtree_uniform_except_first:
  assumes "toks = split_sp tree" and "si = swappable_indices G toks"
    and "unit_draw (g 0)" and "2 \<le> length si"
  shows "set si = {i. i < length toks \<and> tl (toks ! i) \<in> set (swappable_nonterminals G)} \<and>
         sorted si \<and> distinct si \<and>
         (\<exists>r. 1 \<le> r \<and> r < length si \<and>
              fst (rand_subtree G tree g) = Inr (tl (toks ! (si ! r)), si ! r)) \<and>
         (\<forall>r. 1 \<le> r \<and> r < length si \<longrightarrow>
              (fst (rand_subtree G tree g) = Inr (tl (toks ! (si ! r)), si ! r) \<longleftrightarrow>
               real (r - 1) / real (length si - 1) \<le> g 0 \<and>
               g 0 < real r / real (length si - 1)))"
proof (intro conjI allI impI)
  show "set si = {i. i < length toks \<and> tl (toks ! i) \<in> set (swappable_nonterminals G)}"
    by (simp add: assms(2) swappable_indices_set)
  show "sorted si" by (simp add: assms(2) swappable_indices_sorted)
  show dist: "distinct si" by (simp add: assms(2) swappable_indices_distinct)
  define r0 where "r0 = nat (1 + \<lfloor>g 0 * real_of_int (int (length si) - 1)\<rfloor>)"
  have k: "2 \<le> length (swappable_indices G (split_sp tree))"
    using assms by simp
  have si: "swappable_indices G (split_sp tree) = si" using assms by simp
  from rand_subtree_draw [of g G tree, OF assms(3) k]
  have r0: "1 \<le> r0" "r0 < length si"
    and res: "fst (rand_subtree G tree g) = Inr (tl (toks ! (si ! r0)), si ! r0)"
    unfolding si r0_def assms(1) by blast+
  from r0 res
  show "\<exists>r. 1 \<le> r \<and> r < length si \<and>
            fst (rand_subtree G tree g) = Inr (tl (toks ! (si ! r)), si ! r)"
    by blast
  fix r assume r: "1 \<le> r \<and> r < length si"
  have n: "0 < int (length si) - 1" using assms(4) by simp
  have fl0: "0 \<le> \<lfloor>g 0 * real_of_int (int (length si) - 1)\<rfloor>"
    using floor_scale_range [OF _ _ n, of "g 0"] assms(3) by (simp add: unit_draw_def)
  have "fst (rand_subtree G tree g) = Inr (tl (toks ! (si ! r)), si ! r) \<longleftrightarrow> si ! r0 = si ! r"
    by (auto simp: res)
  also have "\<dots> \<longleftrightarrow> r0 = r"
    using dist r r0 by (simp add: nth_eq_iff_index_eq)
  also have "\<dots> \<longleftrightarrow> \<lfloor>g 0 * real_of_int (int (length si) - 1)\<rfloor> = int r - 1"
    using fl0 r by (auto simp: r0_def)
  also have "\<dots> \<longleftrightarrow> real_of_int (int r - 1) / real_of_int (int (length si) - 1) \<le> g 0 \<and>
                   g 0 < real_of_int (int r - 1 + 1) / real_of_int (int (length si) - 1)"
    by (rule floor_scale_iff [OF n])
  also have "real_of_int (int r - 1) = real (r - 1)"
    using r by (simp add: of_nat_diff)
  also have "real_of_int (int (length si) - 1) = real (length si - 1)"
    using assms(4) by (simp add: of_nat_diff)
  also have "real_of_int (int r - 1 + 1) = real r" by simp
  finally show "fst (rand_subtree G tree g) = Inr (tl (toks ! (si ! r)), si ! r) \<longleftrightarrow>
                real (r - 1) / real (length si - 1) \<le> g 0 \<and>
                g 0 < real r / real (length si - 1)" .
qed

definition single_grammar :: grammar where
  "single_grammar =
     \<lparr>start = ''S'',
      all_productions =
        [(''S'', [Nonterminal ''A'']),
         (''S'', [Nonterminal ''A'', Nonterminal ''A'']),
         (''A'', [Terminal ''a''])],
      convergent = False, depth_constrained = False, depth_constraints = None\<rparr>"

lemma arith_swappable: "swappable_nonterminals arith_grammar = [''S'', ''T'']"
  by (simp add: swappable_nonterminals_def non_unique_nonterminals_def arith_grammar_def)

lemma single_swappable: "swappable_nonterminals single_grammar = [''S'']"
  by (simp add: swappable_nonterminals_def non_unique_nonterminals_def single_grammar_def)

lemma arith_tree_indices:
  "swappable_indices arith_grammar (split_sp ''(S (S (T 1)) + (T 2))'') = [0, 1, 2, 5]"
  by (simp add: swappable_indices_def arith_swappable Let_def upt_rec)

theorem rand_subtree_uniform_except_first_witness:
  "unit_draw ((\<lambda>_. 1/2) 0) \<and> 2 \<le> length [0, 1, 2, 5 :: nat] \<and>
   [0, 1, 2, 5] = swappable_indices arith_grammar (split_sp ''(S (S (T 1)) + (T 2))'') \<and>
   (\<exists>r. 1 \<le> r \<and> r < length [0, 1, 2, 5 :: nat] \<and>
      fst (rand_subtree arith_grammar ''(S (S (T 1)) + (T 2))'' (\<lambda>_. 1/2)) =
        Inr (tl (split_sp ''(S (S (T 1)) + (T 2))'' ! ([0, 1, 2, 5] ! r)), [0, 1, 2, 5] ! r)) \<and>
   fst (rand_subtree arith_grammar ''(S (S (T 1)) + (T 2))'' (\<lambda>_. 1/2)) = Inr (''T'', 2)"
proof -
  have u: "unit_draw ((\<lambda>_. 1/2) 0)" by (simp add: unit_draw_def)
  have k: "2 \<le> length [0, 1, 2, 5 :: nat]" by simp
  note si = arith_tree_indices [symmetric]
  from rand_subtree_uniform_except_first [OF refl si u k]
  have d: "\<exists>r. 1 \<le> r \<and> r < length [0, 1, 2, 5 :: nat] \<and>
      fst (rand_subtree arith_grammar ''(S (S (T 1)) + (T 2))'' (\<lambda>_. 1/2)) =
        Inr (tl (split_sp ''(S (S (T 1)) + (T 2))'' ! ([0, 1, 2, 5] ! r)), [0, 1, 2, 5] ! r)"
    by blast
  have "fst (rand_subtree arith_grammar ''(S (S (T 1)) + (T 2))'' (\<lambda>_. 1/2)) = Inr (''T'', 2)"
    unfolding rand_subtree_def Let_def arith_tree_indices
    by (simp add: np_randint_def next_draw_def py_index_def Let_def)
  with u k si d show ?thesis by blast
qed

text \<open>
  With a single swappable occurrence the sampling range \<open>[1, 1)\<close> is empty and
  \<open>randint\<close> raises; with two, the first one (here the root) is never returned.
\<close>

theorem rand_subtree_counterexample:
  "swappable_indices single_grammar (split_sp ''(S (A a))'') = [0] \<and>
   fst (rand_subtree single_grammar ''(S (A a))'' (\<lambda>_. 0)) = Inl ValueError \<and>
   swappable_indices arith_grammar (split_sp ''(S (T 1))'') = [0, 1] \<and>
   \<not> (\<exists>g. unit_draw (g 0) \<and>
          fst (rand_subtree arith_grammar ''(S (T 1))'' g) = Inr (''S'', 0))"
proof (intro conjI notI)
  show one: "swappable_indices single_grammar (split_sp ''(S (A a))'') = [0]"
    by (simp add: swappable_indices_def single_swappable Let_def upt_rec)
  show "fst (rand_subtree single_grammar ''(S (A a))'' (\<lambda>_. 0)) = Inl ValueError"
    unfolding rand_subtree_def Let_def one by (simp add: np_randint_def)
  show two: "swappable_indices arith_grammar (split_sp ''(S (T 1))'') = [0, 1]"
    by (simp add: swappable_indices_def arith_swappable Let_def upt_rec)
  assume "\<exists>g. unit_draw (g 0) \<and>
            fst (rand_subtree arith_grammar ''(S (T 1))'' g) = Inr (''S'', 0)"
  then obtain g :: rng where u: "unit_draw (g 0)"
    and r: "fst (rand_subtree arith_grammar ''(S (T 1))'' g) = Inr (''S'', 0)"
    by blast
  from u have "\<lfloor>g 0\<rfloor> = 0" by (simp add: unit_draw_def floor_eq_iff)
  then have "fst (rand_subtree arith_grammar ''(S (T 1))'' g) = Inr (''T'', 1)"
    unfolding rand_subtree_def Let_def two
    by (simp add: np_randint_def next_draw_def py_index_def Let_def)
  with r show False by simp
qed

section \<open>numerical/float.py: \<open>FloatHyperparameter\<close>\<close>

text \<open>
  The \<open>value\<close> attribute: \<open>None\<close> until the parameter is sampled, then a float, which
  may be NaN. \<open>float_eq\<close> is Python's \<open>==\<close> on such values: NaN equals nothing.
\<close>

datatype fvalue = NoValue | NaN | Fin real


record float_hp =
  name :: string
  lower :: real
  upper :: real
  log :: bool
  "value" :: fvalue
  ident :: real














section \<open>numerical/categorical.py: \<open>CategoricalParameter\<close>\<close>

record 'a categorical =
  choices :: "'a list"
  cvalue :: "'a option"

















definition lr :: float_hp where
  "lr = \<lparr>name = ''lr'', lower = 1, upper = 5, log = False, value = Fin 2, ident = 0\<rparr>"

definition c123 :: "nat categorical" where
  "c123 = \<lparr>choices = [1, 2, 3], cvalue = Some 1\<rparr>"

definition c1 :: "nat categorical" where
  "c1 = \<lparr>choices = [1], cvalue = Some 1\<rparr>"

definition c11 :: "nat categorical" where
  "c11 = \<lparr>choices = [1, 1], cvalue = Some 1\<rparr>"

subsection \<open>The degenerate-mutation guard\<close>














section \<open>search_space.py: \<open>SearchSpace\<close>\<close>

text \<open>
  A search space holds its parameters in an ordered dictionary, modelled by an
  association list in insertion order. \<open>dict_set\<close> is \<open>d[k] = v\<close>, \<open>py_dict\<close> is
  \<open>dict(pairs)\<close>, \<open>SearchSpace\<close> is \<open>__init__(**hyperparameters)\<close>. The parameter
  type \<open>'p\<close> and its methods are arguments: the class calls whatever \<open>mutate\<close> and
  \<open>crossover\<close> its members have. A method is a function of the parameter and the
  generator state that returns a value or raises; what a call may change inside the
  parameter it is called on (the float parameter's transformation to the unit interval
  and back) is not part of this model, which keeps the parameters of a space as values.
\<close>

record 'p search_space =
  num_hps :: nat
  hyperparameters :: "(string \<times> 'p) list"

fun dict_set :: "string \<Rightarrow> 'p \<Rightarrow> (string \<times> 'p) list \<Rightarrow> (string \<times> 'p) list" where
  "dict_set k v [] = [(k, v)]"
| "dict_set k v ((k', v') # d) = (if k = k' then (k, v) # d else (k', v') # dict_set k v d)"

definition py_dict :: "(string \<times> 'p) list \<Rightarrow> (string \<times> 'p) list" where
  "py_dict pairs = foldl (\<lambda>d (k, v). dict_set k v d) [] pairs"

definition SearchSpace :: "(string \<times> 'p) list \<Rightarrow> 'p search_space" where
  "SearchSpace kwargs = \<lparr>num_hps = length kwargs, hyperparameters = kwargs\<rparr>"

definition get_array :: "'p search_space \<Rightarrow> 'p list" where
  "get_array self = map snd (hyperparameters self)"

definition keys :: "'p search_space \<Rightarrow> string list" where
  "keys self = map fst (hyperparameters self)"

text \<open>\<open>random.randint(a, b)\<close>: an integer of \<open>[a, b]\<close>, both ends included; an empty range
  raises.\<close>

definition py_randint :: "int \<Rightarrow> int \<Rightarrow> rng \<Rightarrow> (error + int) \<times> rng" where
  "py_randint a b g =
     (if b < a then (Inl ValueError, g)
      else (let (u, g') = next_draw g
            in (Inr (a + \<lfloor>u * real_of_int (b - a + 1)\<rfloor>), g')))"

type_synonym 'p mutate_method = "'p \<Rightarrow> rng \<Rightarrow> (error + 'p) \<times> rng"

text \<open>
  The loop \<open>while patience > 0\<close> of \<open>_smbo_mutation\<close>: the first successful \<open>hp.mutate()\<close>
  ends it, every exception costs one unit of patience. It returns the mutated parameter,
  if any, and the number of calls of \<open>hp.mutate\<close> it made (a count kept for the
  statements below; the code does not keep it).
\<close>

fun mutate_retry :: "'p mutate_method \<Rightarrow> 'p \<Rightarrow> nat \<Rightarrow> rng \<Rightarrow> 'p option \<times> nat \<times> rng" where
  "mutate_retry hp_mutate hp 0 g = (None, 0, g)"
| "mutate_retry hp_mutate hp (Suc patience) g =
     (case hp_mutate hp g of
        (Inr child, g') \<Rightarrow> (Some child, 1, g')
      | (Inl e, g') \<Rightarrow>
          (let (r, calls, g'') = mutate_retry hp_mutate hp patience g'
           in (r, Suc calls, g'')))"

definition smbo_mutation ::
  "'p mutate_method \<Rightarrow> 'p search_space \<Rightarrow> int \<Rightarrow> rng \<Rightarrow> (error + 'p list \<times> nat) \<times> rng" where
  "smbo_mutation hp_mutate self patience g =
     (let new_config = get_array self in
      case py_randint 0 (int (num_hps self) - 1) g of
        (Inl e, g') \<Rightarrow> (Inl e, g')
      | (Inr idx, g') \<Rightarrow>
          (case py_index new_config idx of
             Inl e \<Rightarrow> (Inl e, g')
           | Inr hp \<Rightarrow>
               (let (r, calls, g'') = mutate_retry hp_mutate hp (nat patience) g'
                in case r of
                     None \<Rightarrow> (Inr (new_config, calls), g'')
                   | Some child \<Rightarrow>
                       (Inr (new_config[nat (if idx < 0 then int (length new_config) + idx else idx)
                                          := child], calls), g''))))"

definition mutate ::
  "'p mutate_method \<Rightarrow> 'p search_space \<Rightarrow> int \<Rightarrow> string \<Rightarrow> rng \<Rightarrow>
     (error + 'p search_space \<times> nat) \<times> rng" where
  "mutate hp_mutate self patience mutation_strategy g =
     (if mutation_strategy = ''smbo'' then
        (case smbo_mutation hp_mutate self patience g of
           (Inl e, g') \<Rightarrow> (Inl e, g')
         | (Inr (new_config, calls), g') \<Rightarrow>
             (Inr (SearchSpace (py_dict (zip (keys self) new_config)), calls), g'))
      else (Inl NotImplementedError, g))"

text \<open>
  \<open>_simple_crossover\<close>. What \<open>hyperparameter.crossover(...)\<close> returns is a Python value:
  a pair of children, or \<open>None\<close> from a method whose body is \<open>pass\<close>, on which the
  unpacking \<open>child1, child2 = ...\<close> raises TypeError. \<open>crossover_attempts\<close> is the inner
  \<open>while patience > 0\<close> loop for one parameter: it returns the pair it appended to the
  two new configurations, if any, and the patience left, which the next parameter
  inherits. \<open>other\<close> is \<open>config2.hyperparameters[key]\<close>, a KeyError if the key is absent.
\<close>

datatype 'p pyval = PyNone | PyPair 'p 'p

type_synonym 'p crossover_method = "'p \<Rightarrow> 'p \<Rightarrow> rng \<Rightarrow> (error + 'p pyval) \<times> rng"

fun crossover_attempts ::
  "'p crossover_method \<Rightarrow> 'p \<Rightarrow> error + 'p \<Rightarrow> nat \<Rightarrow> rng \<Rightarrow> ('p \<times> 'p) option \<times> nat \<times> rng" where
  "crossover_attempts hp_crossover hp other 0 g = (None, 0, g)"
| "crossover_attempts hp_crossover hp other (Suc patience) g =
     (case other of
        Inl e \<Rightarrow> crossover_attempts hp_crossover hp other patience g
      | Inr hp2 \<Rightarrow>
          (case hp_crossover hp hp2 g of
             (Inr (PyPair child1 child2), g') \<Rightarrow> (Some (child1, child2), Suc patience, g')
           | (Inr PyNone, g') \<Rightarrow> crossover_attempts hp_crossover hp other patience g'
           | (Inl e, g') \<Rightarrow>
               if e = NotImplementedError then (Some (hp, hp2), Suc patience, g')
               else crossover_attempts hp_crossover hp other patience g'))"

fun crossover_items ::
  "('p \<Rightarrow> bool) \<Rightarrow> 'p crossover_method \<Rightarrow> (string \<times> 'p) list \<Rightarrow> (string \<times> 'p) list \<Rightarrow>
     real \<Rightarrow> nat \<Rightarrow> 'p list \<Rightarrow> 'p list \<Rightarrow> rng \<Rightarrow> (error + 'p list \<times> 'p list) \<times> rng" where
  "crossover_items has_crossover hp_crossover [] config2 probability patience
     new_config1 new_config2 g = (Inr (new_config1, new_config2), g)"
| "crossover_items has_crossover hp_crossover ((key, hp) # rest) config2 probability patience
     new_config1 new_config2 g =
     (let other = (case map_of config2 key of None \<Rightarrow> Inl KeyError | Some h \<Rightarrow> Inr h);
          (attempt, g1) =
            (if has_crossover hp then (let (x, g') = next_draw g in (x < probability, g'))
             else (False, g))
      in if attempt then
           (case crossover_attempts hp_crossover hp other patience g1 of
              (None, patience', g2) \<Rightarrow>
                crossover_items has_crossover hp_crossover rest config2 probability patience'
                  new_config1 new_config2 g2
            | (Some (child1, child2), patience', g2) \<Rightarrow>
                crossover_items has_crossover hp_crossover rest config2 probability patience'
                  (new_config1 @ [child1]) (new_config2 @ [child2]) g2)
         else
           (case other of
              Inl e \<Rightarrow> (Inl e, g1)
            | Inr hp2 \<Rightarrow>
                crossover_items has_crossover hp_crossover rest config2 probability patience
                  (new_config1 @ [hp]) (new_config2 @ [hp2]) g1))"

definition simple_crossover ::
  "('p \<Rightarrow> bool) \<Rightarrow> 'p crossover_method \<Rightarrow> 'p search_space \<Rightarrow> 'p search_space \<Rightarrow>
     real \<Rightarrow> int \<Rightarrow> rng \<Rightarrow> (error + 'p list \<times> 'p list) \<times> rng" where
  "simple_crossover has_crossover hp_crossover self config2 probability patience g =
     crossover_items has_crossover hp_crossover (hyperparameters self) (hyperparameters config2)
       probability (nat patience) [] [] g"

definition crossover ::
  "('p \<Rightarrow> bool) \<Rightarrow> 'p crossover_method \<Rightarrow> 'p search_space \<Rightarrow> 'p search_space \<Rightarrow>
     real \<Rightarrow> int \<Rightarrow> string \<Rightarrow> rng \<Rightarrow> (error + 'p search_space \<times> 'p search_space) \<times> rng" where
  "crossover has_crossover hp_crossover self config2 probability patience crossover_strategy g =
     (if crossover_strategy = ''simple'' then
        (case simple_crossover has_crossover hp_crossover self config2 probability patience g of
           (Inl e, g') \<Rightarrow> (Inl e, g')
         | (Inr (new_config1, new_config2), g') \<Rightarrow>
             (Inr (SearchSpace (py_dict (zip (keys self) new_config1)),
                   SearchSpace (py_dict (zip (keys self) new_config2))), g'))
      else (Inl NotImplementedError, g))"

text \<open>
  The parameter classes of the two modules, with the \<open>crossover\<close> each defines:
  \<open>FloatHyperparameter.crossover\<close> raises NotImplementedError,
  \<open>CategoricalParameter.crossover\<close> is \<open>pass\<close> and returns \<open>None\<close>. Both have the
  attribute.
\<close>

datatype parameter = FloatP float_hp | CategoricalP "nat categorical"

fun param_has_crossover :: "parameter \<Rightarrow> bool" where
  "param_has_crossover (FloatP _) = True"
| "param_has_crossover (CategoricalP _) = True"

fun param_crossover :: "parameter crossover_method" where
  "param_crossover (FloatP _) parent1 g = (Inl NotImplementedError, g)"
| "param_crossover (CategoricalP _) parent1 g = (Inr PyNone, g)"

subsection \<open>Exhausted patience in \<open>mutate\<close>\<close>

lemma dict_set_fresh: "k \<notin> fst ` set d \<Longrightarrow> dict_set k v d = d @ [(k, v)]"
  by (induction d) auto

lemma foldl_dict_set_distinct:
  "distinct (map fst (d @ pairs)) \<Longrightarrow>
   foldl (\<lambda>d (k, v). dict_set k v d) d pairs = d @ pairs"
proof (induction pairs arbitrary: d)
  case Nil
  then show ?case by simp
next
  case (Cons p pairs)
  obtain k v where p: "p = (k, v)" by (cases p)
  from Cons.prems p have fresh: "k \<notin> fst ` set d" by auto
  from Cons.prems p have "distinct (map fst ((d @ [(k, v)]) @ pairs))" by simp
  from Cons.IH [OF this] fresh p show ?case by (simp add: dict_set_fresh)
qed

lemma py_dict_distinct: "distinct (map fst pairs) \<Longrightarrow> py_dict pairs = pairs"
  using foldl_dict_set_distinct [of "[]" pairs] by (simp add: py_dict_def)

lemma mutate_retry_all_fail:
  assumes "\<forall>g'. isl (fst (hp_mutate hp g'))"
  shows "fst (mutate_retry hp_mutate hp patience g) = None \<and>
         fst (snd (mutate_retry hp_mutate hp patience g)) = patience"
proof (induction patience arbitrary: g)
  case 0
  then show ?case by simp
next
  case (Suc patience)
  obtain r g1 where call: "hp_mutate hp g = (r, g1)" by (cases "hp_mutate hp g")
  with assms [rule_format, of g] obtain e where r: "r = Inl e" by (cases r) auto
  obtain r2 calls g2 where rest: "mutate_retry hp_mutate hp patience g1 = (r2, calls, g2)"
    by (cases "mutate_retry hp_mutate hp patience g1")
  with Suc [of g1] have "r2 = None" "calls = patience" by simp_all
  with call r rest show ?case by simp
qed

lemma py_randint_range:
  assumes "unit_draw (g 0)" and "0 < n"
  shows "\<exists>idx. py_randint 0 (int n - 1) g = (Inr idx, \<lambda>k. g (Suc k)) \<and> 0 \<le> idx \<and> idx < int n"
proof -
  from assms(1) have u: "0 \<le> g 0" "g 0 < 1" by (simp_all add: unit_draw_def)
  have n: "0 < int n" using assms(2) by simp
  from floor_scale_range [OF u n]
  have "0 \<le> \<lfloor>g 0 * real_of_int (int n)\<rfloor>" "\<lfloor>g 0 * real_of_int (int n)\<rfloor> < int n"
    by blast+
  moreover have "\<not> int n - 1 < 0" using assms(2) by simp
  moreover have "int n - 1 - 0 + 1 = int n" by simp
  ultimately show ?thesis
    unfolding py_randint_def next_draw_def Let_def by simp
qed

text \<open>
  Claim C1, as the code has it. When the patience is used up the loop of
  \<open>_smbo_mutation\<close> simply ends and the unmutated configuration is returned: on a space
  whose parameters' \<open>mutate\<close> always fails, \<open>mutate\<close> does not raise; it returns a search
  space with the same parameters after exactly \<open>patience\<close> calls of the underlying
  \<open>mutate\<close>, which is none for \<open>patience = 0\<close>.
\<close>

theorem mutate_exhausted_returns_unchanged:
  assumes "kwargs \<noteq> []" and "distinct (map fst kwargs)" and "unit_draw (g 0)"
    and "\<forall>hp \<in> set (map snd kwargs). \<forall>g'. isl (fst (hp_mutate hp g'))"
  shows "fst (mutate hp_mutate (SearchSpace kwargs) patience ''smbo'' g) =
           Inr (SearchSpace kwargs, nat patience)"
proof -
  have n: "0 < length kwargs" using assms(1) by simp
  from py_randint_range [of g "length kwargs", OF assms(3) n] obtain idx where
    draw: "py_randint 0 (int (length kwargs) - 1) g = (Inr idx, \<lambda>k. g (Suc k))"
    and idx: "0 \<le> idx" "idx < int (length kwargs)"
    by blast
  define hp where "hp = map snd kwargs ! nat idx"
  have pick: "py_index (map snd kwargs) idx = Inr hp"
    using idx by (simp add: py_index_def hp_def)
  have "hp \<in> set (map snd kwargs)"
    unfolding hp_def using idx by (intro nth_mem) simp
  with assms(4) have fails: "\<forall>g'. isl (fst (hp_mutate hp g'))" by blast
  obtain r calls g2 where
    loop: "mutate_retry hp_mutate hp (nat patience) (\<lambda>k. g (Suc k)) = (r, calls, g2)"
    by (cases "mutate_retry hp_mutate hp (nat patience) (\<lambda>k. g (Suc k))")
  with mutate_retry_all_fail [of hp_mutate hp "nat patience" "\<lambda>k. g (Suc k)", OF fails]
  have r: "r = None" and calls: "calls = nat patience" by simp_all
  have smbo: "smbo_mutation hp_mutate (SearchSpace kwargs) patience g =
                (Inr (map snd kwargs, nat patience), g2)"
    by (simp add: smbo_mutation_def SearchSpace_def get_array_def draw pick loop r calls)
  have "py_dict (zip (keys (SearchSpace kwargs)) (map snd kwargs)) = kwargs"
    using py_dict_distinct [OF assms(2)] by (simp add: keys_def SearchSpace_def zip_map_fst_snd)
  with smbo show ?thesis by (simp add: mutate_def)
qed

theorem mutate_exhausted_returns_unchanged_witness:
  "[(''x'', 0::nat)] \<noteq> [] \<and> distinct (map fst [(''x'', 0::nat)]) \<and> unit_draw ((\<lambda>_. 0) 0) \<and>
   isl (fst ((\<lambda>hp g. (Inl ValueError, g)) (0::nat) (\<lambda>_. 0 :: real))) \<and>
   fst (mutate (\<lambda>hp g. (Inl ValueError, g)) (SearchSpace [(''x'', 0::nat)]) 0 ''smbo'' (\<lambda>_. 0)) =
     Inr (SearchSpace [(''x'', 0)], 0)"
  using mutate_exhausted_returns_unchanged
    [of "[(''x'', 0::nat)]" "\<lambda>_. 0" "\<lambda>hp g. (Inl ValueError, g)" 0]
  by (simp add: unit_draw_def)

text \<open>A space of one float parameter whose \<open>mutate\<close> always raises ValueError: with
  \<open>patience = 0\<close> the call returns the space as it is.\<close>

theorem mutate_patience_zero_counterexample:
  "fst (mutate (\<lambda>hp g. (Inl ValueError, g)) (SearchSpace [(''lr'', lr)]) 0 ''smbo'' (\<lambda>_. 0)) =
     Inr (SearchSpace [(''lr'', lr)], 0)"
  by (simp add: mutate_def smbo_mutation_def SearchSpace_def get_array_def keys_def
      py_randint_def next_draw_def py_index_def py_dict_def Let_def)

subsection \<open>Crossover of a parameter whose \<open>crossover\<close> is \<open>pass\<close>\<close>

lemma crossover_attempts_categorical:
  "crossover_attempts param_crossover (CategoricalP c) (Inr hp2) patience g = (None, 0, g)"
  by (induction patience) simp_all

text \<open>
  Claim C2 at a categorical parameter. \<open>CategoricalParameter.crossover\<close> returns \<open>None\<close>;
  the unpacking raises TypeError, which the handler for any other exception takes for a
  failed attempt; after fifty of them the loop ends with nothing appended for the
  parameter, and both children lack it.
\<close>

theorem crossover_categorical_drops_parameter:
  "fst (crossover param_has_crossover param_crossover
          (SearchSpace [(''c'', CategoricalP c123)]) (SearchSpace [(''c'', CategoricalP c123)])
          1 50 ''simple'' (\<lambda>_. 1/2)) =
     Inr (SearchSpace [], SearchSpace [])"
  by (simp add: crossover_def simple_crossover_def SearchSpace_def keys_def next_draw_def
      crossover_attempts_categorical py_dict_def Let_def)

section \<open>cfg.py: the samplers\<close>

text \<open>
  The samplers are recursive and need not terminate on a recursive grammar: each takes
  \<open>fuel\<close>, the number of nested calls it may make, and returns \<open>None\<close> when that is used
  up. An exception ends the whole derivation. The loop over the right-hand side of the
  chosen production takes the recursive call as its first argument.
\<close>

subsection \<open>\<open>_depth_constrained_sampler\<close>\<close>

type_synonym depth_info = "string \<rightharpoonup> int"

text \<open>The productions kept when the sampler enters \<open>symbol\<close>, the count of which has
  already been increased in \<open>depth_information\<close>.\<close>

definition depth_candidates :: "grammar \<Rightarrow> depth_info \<Rightarrow> depth_info \<Rightarrow> string \<Rightarrow> production list" where
  "depth_candidates G constraints depth_information symbol =
     (if (case constraints symbol of
            None \<Rightarrow> False
          | Some bound \<Rightarrow>
              (case depth_information symbol of None \<Rightarrow> False | Some d \<Rightarrow> d > bound))
      then filter (\<lambda>production. Nonterminal symbol \<notin> set (rhs production)) (productions G symbol)
      else productions G symbol)"

type_synonym dc_result = "(error + string \<times> depth_info \<times> rng) option"

fun depth_constrained_rhs ::
  "(string \<Rightarrow> depth_info \<Rightarrow> rng \<Rightarrow> dc_result) \<Rightarrow> symbol list \<Rightarrow> string \<Rightarrow> depth_info \<Rightarrow> rng \<Rightarrow>
     dc_result" where
  "depth_constrained_rhs recurse [] tree depth_information g = Some (Inr (tree, depth_information, g))"
| "depth_constrained_rhs recurse (Terminal t # syms) tree depth_information g =
     depth_constrained_rhs recurse syms (tree @ '' '' @ t) depth_information g"
| "depth_constrained_rhs recurse (Nonterminal n # syms) tree depth_information g =
     (case recurse n depth_information g of
        None \<Rightarrow> None
      | Some (Inl e) \<Rightarrow> Some (Inl e)
      | Some (Inr (subtree, depth_information', g')) \<Rightarrow>
          depth_constrained_rhs recurse syms (tree @ '' '' @ subtree @ '')'') depth_information' g')"

text \<open>The end of a call: \<open>depth_information[lhs] -= 1\<close>, then \<open>return tree\<close>.\<close>

definition depth_leave :: "string \<Rightarrow> dc_result \<Rightarrow> dc_result" where
  "depth_leave symbol r =
     (case r of
        None \<Rightarrow> None
      | Some (Inl e) \<Rightarrow> Some (Inl e)
      | Some (Inr (tree, depth_information, g)) \<Rightarrow>
          (case depth_information symbol of
             None \<Rightarrow> Some (Inl KeyError)
           | Some d \<Rightarrow> Some (Inr (tree, depth_information(symbol \<mapsto> d - 1), g))))"

fun depth_constrained_sampler ::
  "nat \<Rightarrow> grammar \<Rightarrow> string \<Rightarrow> depth_info \<Rightarrow> rng \<Rightarrow> dc_result" where
  "depth_constrained_sampler 0 G symbol depth_information g = None"
| "depth_constrained_sampler (Suc fuel) G symbol depth_information g =
     (let depth_information1 =
            depth_information(symbol \<mapsto>
              (case depth_information symbol of None \<Rightarrow> 1 | Some d \<Rightarrow> d + 1))
      in case depth_constraints G of
           None \<Rightarrow> Some (Inl AttributeError)
         | Some constraints \<Rightarrow>
             (let candidates = depth_candidates G constraints depth_information1 symbol in
              if length candidates = 0 then Some (Inl GenericException)
              else (case choice candidates None g of
                      (Inl e, g1) \<Rightarrow> Some (Inl e)
                    | (Inr production, g1) \<Rightarrow>
                        depth_leave symbol
                          (depth_constrained_rhs
                             (\<lambda>sym di g'. depth_constrained_sampler fuel G sym di g')
                             (rhs production) (''('' @ symbol) depth_information1 g1))))"

subsection \<open>\<open>_convergent_sampler\<close>\<close>











subsection \<open>The draw of \<open>choice\<close>\<close>

lemma sum_list_take_replicate:
  "j \<le> n \<Longrightarrow> sum_list (take j (replicate n (c::real))) = real j * c"
  by (simp add: sum_list_replicate min_def)

lemma choice_index_uniform:
  assumes "unit_draw x" and "0 < n"
  shows "choice_index x 0 0 (replicate n (1 / real n)) = \<lfloor>x * real n\<rfloor>"
proof -
  from assms(1) have x: "0 \<le> x" "x < 1" by (simp_all add: unit_draw_def)
  have n: "0 < int n" using assms(2) by simp
  define f where "f = \<lfloor>x * real n\<rfloor>"
  from floor_scale_range [OF x n] have f: "0 \<le> f" "f < int n" by (simp_all add: f_def)
  define k where "k = nat f"
  have k: "k < n" "int k = f" using f by (simp_all add: k_def)
  have rn: "0 < real n" using assms(2) by simp
  have lo: "real k \<le> x * real n"
  proof -
    have "real_of_int f \<le> x * real n" unfolding f_def by (rule of_int_floor_le)
    with k(2) show ?thesis by (metis of_int_of_nat_eq)
  qed
  have hi: "x * real n < real (Suc k)"
  proof -
    have "x * real n < real_of_int f + 1" unfolding f_def by linarith
    moreover have "real_of_int f = real k" using k(2) by (metis of_int_of_nat_eq)
    ultimately show ?thesis by simp
  qed
  have a: "k < length (replicate n (1 / real n))" using k by simp
  have b: "x < 0 + sum_list (take (Suc k) (replicate n (1 / real n)))"
  proof -
    have "sum_list (take (Suc k) (replicate n (1 / real n))) = real (Suc k) * (1 / real n)"
      using k(1) by (intro sum_list_take_replicate) simp
    moreover have "x < real (Suc k) / real n"
      using hi rn by (simp add: pos_less_divide_eq)
    ultimately show ?thesis by simp
  qed
  have c: "\<forall>j \<le> k. \<not> x < 0 + sum_list (take j (replicate n (1 / real n)))"
  proof (intro allI impI)
    fix j assume j: "j \<le> k"
    then have "sum_list (take j (replicate n (1 / real n))) = real j * (1 / real n)"
      using k(1) by (intro sum_list_take_replicate) simp
    moreover have "real j / real n \<le> x"
    proof -
      have "real j \<le> real k" using j by simp
      with lo have "real j \<le> x * real n" by linarith
      with rn show ?thesis by (simp add: pos_divide_le_eq)
    qed
    ultimately show "\<not> x < 0 + sum_list (take j (replicate n (1 / real n)))" by simp
  qed
  from choice_index_hit [OF a b c, of 0] have "choice_index x 0 0 (replicate n (1 / real n)) = int k"
    by simp
  with k(2) show ?thesis by (simp add: f_def)
qed

lemma choice_uniform:
  assumes "unit_draw (g 0)" and "options \<noteq> []"
  shows "\<exists>i < length options.
           real i / real (length options) \<le> g 0 \<and> g 0 < real (Suc i) / real (length options) \<and>
           choice options None g = (Inr (options ! i), \<lambda>k. g (Suc k))"
proof -
  define n where "n = length options"
  have n: "0 < n" using assms(2) by (simp add: n_def)
  from assms(1) have x: "0 \<le> g 0" "g 0 < 1" by (simp_all add: unit_draw_def)
  define f where "f = \<lfloor>g 0 * real n\<rfloor>"
  have "0 < int n" using n by simp
  from floor_scale_range [OF x this] have f: "0 \<le> f" "f < int n" by (simp_all add: f_def)
  define i where "i = nat f"
  have i: "i < n" "int i = f" using f by (simp_all add: i_def)
  have idx: "choice_index (g 0) 0 0 (replicate n (1 / real n)) = int i"
    using choice_index_uniform [OF assms(1) n] i(2) by (simp add: f_def)
  have pick: "py_index options (int i) = Inr (options ! i)"
    using i(1) by (simp add: py_index_def n_def)
  have res: "choice options None g = (Inr (options ! i), \<lambda>k. g (Suc k))"
    using n by (simp add: choice_def next_draw_def Let_def n_def [symmetric] idx pick)
  have "\<lfloor>g 0 * real_of_int (int n)\<rfloor> = int i" using i(2) by (simp add: f_def)
  then have "real_of_int (int i) / real_of_int (int n) \<le> g 0 \<and>
             g 0 < real_of_int (int i + 1) / real_of_int (int n)"
    using floor_scale_iff [of "int n" "g 0" "int i"] n by simp
  then have "real i / real n \<le> g 0 \<and> g 0 < real (Suc i) / real n"
    by (simp add: add.commute)
  with i(1) res show ?thesis unfolding n_def by blast
qed


subsection \<open>Depth-constrained sampling: the candidate set\<close>

text \<open>
  Claim C5. On entering \<open>symbol\<close> with its count, the entry included, above the
  configured bound, the candidates are the productions of \<open>symbol\<close> without those whose
  right-hand side contains the nonterminal \<open>symbol\<close>. If none is left the sampler raises,
  whatever fuel it has; otherwise the draw \<open>g 0\<close> selects the candidate of its
  \<open>1/n\<close>-interval and the derivation goes on with that production.
\<close>

theorem depth_constrained_excludes_recursion:
  assumes "depth_constraints G = Some constraints" and "constraints symbol = Some bound"
    and "count = (case depth_information symbol of None \<Rightarrow> 1 | Some d \<Rightarrow> d + 1)"
    and "bound < count" and "unit_draw (g 0)"
    and "remainder =
           filter (\<lambda>production. Nonterminal symbol \<notin> set (rhs production)) (productions G symbol)"
  shows "(remainder = [] \<longrightarrow>
            depth_constrained_sampler (Suc fuel) G symbol depth_information g =
              Some (Inl GenericException)) \<and>
         (remainder \<noteq> [] \<longrightarrow>
            (\<exists>i < length remainder.
               real i / real (length remainder) \<le> g 0 \<and>
               g 0 < real (Suc i) / real (length remainder) \<and>
               depth_constrained_sampler (Suc fuel) G symbol depth_information g =
                 depth_leave symbol
                   (depth_constrained_rhs
                      (\<lambda>sym di g'. depth_constrained_sampler fuel G sym di g')
                      (rhs (remainder ! i)) (''('' @ symbol)
                      (depth_information(symbol \<mapsto> count)) (\<lambda>k. g (Suc k)))))"
proof -
  define di1 where "di1 = depth_information(symbol \<mapsto> count)"
  have cand: "depth_candidates G constraints di1 symbol = remainder"
    using assms(2,4,6) by (simp add: depth_candidates_def di1_def)
  have unfold: "depth_constrained_sampler (Suc fuel) G symbol depth_information g =
      (if length remainder = 0 then Some (Inl GenericException)
       else (case choice remainder None g of
               (Inl e, g1) \<Rightarrow> Some (Inl e)
             | (Inr production, g1) \<Rightarrow>
                 depth_leave symbol
                   (depth_constrained_rhs
                      (\<lambda>sym di g'. depth_constrained_sampler fuel G sym di g')
                      (rhs production) (''('' @ symbol) di1 g1)))"
  proof -
    have di1: "depth_information(symbol \<mapsto>
                 (case depth_information symbol of None \<Rightarrow> 1 | Some d \<Rightarrow> d + 1)) = di1"
      by (simp add: di1_def assms(3))
    show ?thesis
      unfolding depth_constrained_sampler.simps Let_def di1 assms(1) option.case cand
      by (rule refl)
  qed
  show ?thesis
  proof (intro conjI impI)
    assume "remainder = []"
    with unfold show "depth_constrained_sampler (Suc fuel) G symbol depth_information g =
                        Some (Inl GenericException)"
      by simp
  next
    assume ne: "remainder \<noteq> []"
    from choice_uniform [of g remainder, OF assms(5) ne] obtain i where i: "i < length remainder"
      and lo: "real i / real (length remainder) \<le> g 0"
      and hi: "g 0 < real (Suc i) / real (length remainder)"
      and ch: "choice remainder None g = (Inr (remainder ! i), \<lambda>k. g (Suc k))"
      by blast
    from unfold ne ch have
      "depth_constrained_sampler (Suc fuel) G symbol depth_information g =
         depth_leave symbol
           (depth_constrained_rhs
              (\<lambda>sym di g'. depth_constrained_sampler fuel G sym di g')
              (rhs (remainder ! i)) (''('' @ symbol) di1 (\<lambda>k. g (Suc k)))"
      by simp
    with i lo hi show "\<exists>i < length remainder.
               real i / real (length remainder) \<le> g 0 \<and>
               g 0 < real (Suc i) / real (length remainder) \<and>
               depth_constrained_sampler (Suc fuel) G symbol depth_information g =
                 depth_leave symbol
                   (depth_constrained_rhs
                      (\<lambda>sym di g'. depth_constrained_sampler fuel G sym di g')
                      (rhs (remainder ! i)) (''('' @ symbol)
                      (depth_information(symbol \<mapsto> count)) (\<lambda>k. g (Suc k)))"
      unfolding di1_def by blast
  qed
qed

definition bounded_arith :: grammar where
  "bounded_arith = arith_grammar\<lparr>depth_constrained := True, depth_constraints := Some [''S'' \<mapsto> 1]\<rparr>"

definition loop_grammar :: grammar where
  "loop_grammar =
     \<lparr>start = ''S'',
      all_productions = [(''S'', [Nonterminal ''S'', Terminal ''+'', Nonterminal ''S''])],
      convergent = False, depth_constrained = True, depth_constraints = Some [''S'' \<mapsto> 0]\<rparr>"

lemma bounded_arith_S:
  "productions bounded_arith ''S'' =
     [(''S'', [Nonterminal ''S'', Terminal ''+'', Nonterminal ''T'']), (''S'', [Nonterminal ''T''])]"
  by (simp add: productions_def bounded_arith_def arith_grammar_def)

lemma bounded_arith_T:
  "productions bounded_arith ''T'' = [(''T'', [Terminal ''1'']), (''T'', [Terminal ''2''])]"
  by (simp add: productions_def bounded_arith_def arith_grammar_def)

lemma bounded_arith_run:
  "depth_constrained_sampler (Suc (Suc 0)) bounded_arith ''S'' [''S'' \<mapsto> 1] (\<lambda>_. 1/2) =
     Some (Inr (''(S (T 2)'', [''S'' \<mapsto> 1, ''T'' \<mapsto> 0], \<lambda>_. 1/2))"
proof -
  have cons: "depth_constraints bounded_arith = Some [''S'' \<mapsto> 1]"
    by (simp add: bounded_arith_def)
  have t: "depth_constrained_sampler (Suc 0) bounded_arith ''T'' [''S'' \<mapsto> 2] (\<lambda>_. 1/2) =
             Some (Inr (''(T 2'', [''S'' \<mapsto> 2, ''T'' \<mapsto> 0], \<lambda>_. 1/2))"
    by (simp add: cons depth_candidates_def bounded_arith_T choice_def next_draw_def
        py_index_def depth_leave_def Let_def)
  have eq: "[''S'' \<mapsto> 2, ''T'' \<mapsto> 0, ''S'' \<mapsto> 1] = [''S'' \<mapsto> 1, ''T'' \<mapsto> (0::int)]"
    by (rule ext) simp
  show ?thesis
    by (simp add: cons depth_candidates_def bounded_arith_S choice_def next_draw_def
        py_index_def depth_leave_def t eq Let_def del: depth_constrained_sampler.simps
        add: depth_constrained_sampler.simps(2) [of "Suc 0"])
qed

theorem depth_constrained_excludes_recursion_witness:
  "depth_constraints loop_grammar = Some [''S'' \<mapsto> 0] \<and>
   depth_constraints bounded_arith = Some [''S'' \<mapsto> 1] \<and>
   unit_draw ((\<lambda>_. 1/2) 0) \<and>
   filter (\<lambda>production. Nonterminal ''S'' \<notin> set (rhs production))
     (productions loop_grammar ''S'') = [] \<and>
   depth_constrained_sampler (Suc 0) loop_grammar ''S'' Map.empty (\<lambda>_. 1/2) =
     Some (Inl GenericException) \<and>
   filter (\<lambda>production. Nonterminal ''S'' \<notin> set (rhs production))
     (productions bounded_arith ''S'') = [(''S'', [Nonterminal ''T''])] \<and>
   (\<exists>i < length [(''S'', [Nonterminal ''T''])].
      depth_constrained_sampler (Suc (Suc 0)) bounded_arith ''S'' [''S'' \<mapsto> 1] (\<lambda>_. 1/2) =
        depth_leave ''S''
          (depth_constrained_rhs
             (\<lambda>sym di g'. depth_constrained_sampler (Suc 0) bounded_arith sym di g')
             (rhs ([(''S'', [Nonterminal ''T''])] ! i)) (''('' @ ''S'')
             ([''S'' \<mapsto> 1](''S'' \<mapsto> 2)) (\<lambda>k. (\<lambda>_. 1/2) (Suc k)))) \<and>
   depth_constrained_sampler (Suc (Suc 0)) bounded_arith ''S'' [''S'' \<mapsto> 1] (\<lambda>_. 1/2) =
     Some (Inr (''(S (T 2)'', [''S'' \<mapsto> 1, ''T'' \<mapsto> 0], \<lambda>_. 1/2))"
proof -
  have c1: "depth_constraints loop_grammar = Some [''S'' \<mapsto> 0]"
    by (simp add: loop_grammar_def)
  have c2: "depth_constraints bounded_arith = Some [''S'' \<mapsto> 1]"
    by (simp add: bounded_arith_def)
  have u: "unit_draw ((\<lambda>_. 1/2) 0)" by (simp add: unit_draw_def)
  have r1: "[] = filter (\<lambda>production. Nonterminal ''S'' \<notin> set (rhs production))
                   (productions loop_grammar ''S'')"
    by (simp add: productions_def loop_grammar_def)
  have r2: "[(''S'', [Nonterminal ''T''])] =
              filter (\<lambda>production. Nonterminal ''S'' \<notin> set (rhs production))
                (productions bounded_arith ''S'')"
    by (simp add: bounded_arith_S)
  have b1: "[''S'' \<mapsto> (0::int)] ''S'' = Some 0" by simp
  have b2: "[''S'' \<mapsto> (1::int)] ''S'' = Some 1" by simp
  have n1: "(1::int) = (case (Map.empty :: depth_info) ''S'' of None \<Rightarrow> 1 | Some d \<Rightarrow> d + 1)"
    by simp
  have n2: "(2::int) = (case [''S'' \<mapsto> (1::int)] ''S'' of None \<Rightarrow> 1 | Some d \<Rightarrow> d + 1)"
    by simp
  have l1: "(0::int) < 1" and l2: "(1::int) < 2" by simp_all
  note t1 = depth_constrained_excludes_recursion
    [of loop_grammar _ "''S''" 0 1 Map.empty "\<lambda>_. 1/2" "[]" 0, OF c1 b1 n1 l1 u r1]
  note t2 = depth_constrained_excludes_recursion
    [of bounded_arith _ "''S''" 1 2 "[''S'' \<mapsto> 1]" "\<lambda>_. 1/2" "[(''S'', [Nonterminal ''T''])]"
        "Suc 0", OF c2 b2 n2 l2 u r2]
  from t1 have a: "depth_constrained_sampler (Suc 0) loop_grammar ''S'' Map.empty (\<lambda>_. 1/2) =
                     Some (Inl GenericException)"
    by blast
  from t2 have b: "\<exists>i < length [(''S'', [Nonterminal ''T''])].
      depth_constrained_sampler (Suc (Suc 0)) bounded_arith ''S'' [''S'' \<mapsto> 1] (\<lambda>_. 1/2) =
        depth_leave ''S''
          (depth_constrained_rhs
             (\<lambda>sym di g'. depth_constrained_sampler (Suc 0) bounded_arith sym di g')
             (rhs ([(''S'', [Nonterminal ''T''])] ! i)) (''('' @ ''S'')
             ([''S'' \<mapsto> 1](''S'' \<mapsto> 2)) (\<lambda>k. (\<lambda>_. 1/2) (Suc k)))"
    by blast
  from c1 c2 u r1 [symmetric] r2 [symmetric] a b bounded_arith_run show ?thesis
    by (intro conjI)
qed

subsection \<open>Convergent sampling: the weights\<close>









subsection \<open>Convergent sampling: the usage counts\<close>



















end
